theory Spec2Isabelle
  imports Complex_Main "HOL-Library.Log_Nat" "HOL-Library.Code_Target_Numeral"
begin

section \<open>JavaScript values used by the two components\<close>

text \<open>
  A JavaScript \<open>number\<close> received in a payload is modelled by its exact value, a real:
  the payloads are JSON numbers, hence finite. A value that may be \<open>null\<close> or \<open>undefined\<close>
  is an \<open>option\<close>.
\<close>

type_synonym number = real

text \<open>
  What the \<open>catch\<close> block can receive: the request failed without a response, it was
  answered with a status outside the 2xx range, or something else was thrown, with its
  message.
\<close>

datatype fetch_error = NetworkError | HttpError nat | Thrown string

text \<open>Truthiness of a nullable number: \<open>null\<close>, \<open>undefined\<close> and \<open>0\<close> are falsy.\<close>

definition truthy :: "number option \<Rightarrow> bool" where
  "truthy v = (case v of None \<Rightarrow> False | Some x \<Rightarrow> x \<noteq> 0)"

text \<open>The expression \<open>v || null\<close> on a nullable number.\<close>

definition or_null :: "number option \<Rightarrow> number option" where
  "or_null v = (if truthy v then v else None)"

subsection \<open>Double-precision arithmetic\<close>

text \<open>
  A payload number is the exact value of a finite double. The result of an arithmetic
  operation is the double nearest to the exact result, the one with the even significand
  on a tie, or an infinity when that is out of range; \<open>0 / 0\<close> and the like give \<open>NaN\<close>.
  The sign of a zero is not kept: it changes no text and no comparison computed here.
\<close>

datatype double = Finite number | PosInfinity | NegInfinity | NaN

text \<open>
  The binary exponent of a non-zero real: the \<open>e\<close> with \<open>2^e \<le> |x| < 2^(e+1)\<close>, counted
  from the bits of the whole part, or of the whole part of the reciprocal.
\<close>

definition exponent :: "real \<Rightarrow> int" where
  "exponent x =
     (if 1 \<le> \<bar>x\<bar> then int (floorlog 2 (nat \<lfloor>\<bar>x\<bar>\<rfloor>)) - 1
      else - int (floorlog 2 (nat \<lceil>1 / \<bar>x\<bar>\<rceil> - 1)))"

text \<open>Rounding to the nearest integer, to the even one on a tie.\<close>

definition round_even :: "real \<Rightarrow> int" where
  "round_even x =
     (let f = \<lfloor>x\<rfloor>; r = x - of_int f
      in if r < 1 / 2 then f
         else if 1 / 2 < r then f + 1
         else if even f then f else f + 1)"

text \<open>
  Rounding an exact result to a double: 53 significant bits, so the spacing at exponent
  \<open>e\<close> is \<open>2^(e - 52)\<close>; below the least normal exponent \<open>-1022\<close> the spacing stays
  \<open>2^(-1074)\<close>; a rounded magnitude of \<open>2^1024\<close> or more is an infinity.
\<close>

definition fl :: "real \<Rightarrow> double" where
  "fl x =
     (if x = 0 then Finite 0
      else
        let e = max (exponent x) (- 1022);
            q = 2 powi (e - 52);
            y = of_int (round_even (x / q)) * q
        in if 2 ^ 1024 \<le> \<bar>y\<bar> then (if 0 < x then PosInfinity else NegInfinity)
           else Finite y)"

text \<open>A real is the value of a double when rounding leaves it as it is.\<close>

definition is_double :: "real \<Rightarrow> bool" where
  "is_double x = (fl x = Finite x)"

text \<open>
  The operators \<open>-\<close>, \<open>/\<close> and \<open>*\<close> as the delta calculator uses them: a difference of two
  payload numbers, and a quotient and a product of an earlier result with a payload
  number or a constant.
\<close>

definition fsub :: "number \<Rightarrow> number \<Rightarrow> double" where
  "fsub a b = fl (a - b)"

fun fdiv :: "double \<Rightarrow> number \<Rightarrow> double" where
  "fdiv (Finite x) p =
     (if p = 0 then (if x = 0 then NaN else if 0 < x then PosInfinity else NegInfinity)
      else fl (x / p))"
| "fdiv PosInfinity p = (if p < 0 then NegInfinity else PosInfinity)"
| "fdiv NegInfinity p = (if p < 0 then PosInfinity else NegInfinity)"
| "fdiv NaN p = NaN"

fun fmul :: "double \<Rightarrow> number \<Rightarrow> double" where
  "fmul (Finite x) c = fl (x * c)"
| "fmul PosInfinity c = (if c = 0 then NaN else if 0 < c then PosInfinity else NegInfinity)"
| "fmul NegInfinity c = (if c = 0 then NaN else if 0 < c then NegInfinity else PosInfinity)"
| "fmul NaN c = NaN"

text \<open>The comparison \<open>x >= 0\<close>.\<close>

fun ge_zero :: "double \<Rightarrow> bool" where
  "ge_zero (Finite x) = (0 \<le> x)"
| "ge_zero PosInfinity = True"
| "ge_zero NegInfinity = False"
| "ge_zero NaN = False"

subsection \<open>Decimal digits and \<open>Number.prototype.toFixed\<close>\<close>

definition digit :: "nat \<Rightarrow> char" where
  "digit d = ''0123456789'' ! d"

function decimal :: "nat \<Rightarrow> string" where
  "decimal n = (if n < 10 then [digit n] else decimal (n div 10) @ [digit (n mod 10)])"
  by pat_completeness auto
termination
  by (relation "measure id") auto

declare decimal.simps [simp del]

text \<open>
  The result of \<open>x.toFixed(f)\<close>. For a magnitude of at least \<open>10^21\<close> the builtin hands over
  to the general number-to-string conversion, which prints an exponent; that text is not
  rendered here and the case is kept apart as \<open>Exponent x\<close>.
\<close>

datatype formatted = Fixed string | Exponent number

text \<open>
  The steps of the language definition: take the sign off, let \<open>n\<close> be the integer with
  \<open>n / 10^f\<close> nearest to \<open>x\<close> (the larger one on a tie) and write its digits; then, when
  \<open>f\<close> is not zero, pad them with zeros to \<open>f + 1\<close> digits and put the point before the
  last \<open>f\<close> of them (\<open>point\<close>).
\<close>

definition point :: "nat \<Rightarrow> string \<Rightarrow> string" where
  "point f m =
     (let k = length m;
          m' = (if k \<le> f then replicate (f + 1 - k) CHR ''0'' @ m else m);
          k' = (if k \<le> f then f + 1 else k);
          a = take (k' - f) m';
          b = drop (k' - f) m'
      in a @ ''.'' @ b)"

definition toFixed :: "nat \<Rightarrow> number \<Rightarrow> formatted" where
  "toFixed f x0 =
     (let s = (if x0 < 0 then ''-'' else '''');
          x = (if x0 < 0 then - x0 else x0)
      in if x \<ge> 10 ^ 21 then Exponent x0
         else
           let n = nat \<lfloor>x * 10 ^ f + 1 / 2\<rfloor>;
               m = decimal n
           in Fixed (s @ (if f \<noteq> 0 then point f m else m)))"

text \<open>
  \<open>toFixed\<close> on the result of a computation: a value that is not finite is printed by the
  general number-to-string conversion.
\<close>

fun toFixed_of :: "nat \<Rightarrow> double \<Rightarrow> formatted" where
  "toFixed_of f (Finite x) = toFixed f x"
| "toFixed_of f PosInfinity = Fixed ''Infinity''"
| "toFixed_of f NegInfinity = Fixed ''-Infinity''"
| "toFixed_of f NaN = Fixed ''NaN''"

text \<open>
  What the specification calls a number formatted to exactly two decimal places: the sign,
  the whole part of the magnitude rounded to hundredths, a point, and the two digits of
  tenths and hundredths.
\<close>

definition two_decimals :: "number \<Rightarrow> string" where
  "two_decimals x =
     (let h = nat \<lfloor>\<bar>x\<bar> * 100 + 1 / 2\<rfloor>
      in (if x < 0 then ''-'' else '''') @ decimal (h div 100) @ ''.'' @
         [digit (h div 10 mod 10), digit (h mod 10)])"

section \<open>The price ticker (\<open>PriceTicker\<close>)\<close>

record PriceData =
  symbol :: string
  price :: number
  bid :: number
  ask :: number
  high :: number
  low :: number
  volume :: number
  timestamp :: number

text \<open>The four \<open>useState\<close> cells of the component.\<close>

record ticker_state =
  priceData :: "PriceData option"
  previousPrice :: "number option"
  loading :: bool
  error :: "string option"

definition initial_ticker :: ticker_state where
  "initial_ticker = \<lparr>priceData = None, previousPrice = None, loading = True, error = None\<rparr>"

text \<open>
  \<open>fetchPrice\<close> after its \<open>await\<close>: the request has either returned a payload (\<open>Inr\<close>) or
  thrown (\<open>Inl\<close>). The first argument is the \<open>priceData\<close> the closure reads, which
  is the one of the render in which the effect was set up, not necessarily the one held
  when the request completes.
\<close>

definition fetchPrice :: "PriceData option \<Rightarrow> fetch_error + PriceData \<Rightarrow> ticker_state \<Rightarrow> ticker_state" where
  "fetchPrice captured response st =
     (case response of
        Inr data \<Rightarrow>
          st\<lparr>previousPrice := or_null (map_option price captured),
             priceData := Some data,
             loading := False,
             error := None\<rparr>
      | Inl err \<Rightarrow>
          st\<lparr>error := Some ''Failed to fetch price data'',
             loading := False\<rparr>)"

subsection \<open>The delta calculator\<close>

definition priceChange :: "ticker_state \<Rightarrow> double" where
  "priceChange st =
     (case priceData st of
        None \<Rightarrow> Finite 0
      | Some d \<Rightarrow>
          if truthy (previousPrice st) then fsub (price d) (the (previousPrice st))
          else Finite 0)"

definition priceChangePercent :: "ticker_state \<Rightarrow> formatted" where
  "priceChangePercent st =
     (case priceData st of
        None \<Rightarrow> Fixed ''0.00''
      | Some d \<Rightarrow>
          if truthy (previousPrice st)
          then toFixed_of 2 (fmul (fdiv (priceChange st) (the (previousPrice st))) 100)
          else Fixed ''0.00'')"

definition isPositive :: "ticker_state \<Rightarrow> bool" where
  "isPositive st = ge_zero (priceChange st)"

subsection \<open>The delta indicator of the rendered card\<close>

datatype icon = TrendingUp | TrendingDown

text \<open>
  The indicator element: its class, its icon, and the children of its label, which are
  the sign text, \<open>priceChangePercent\<close> and the percent character.
\<close>

record indicator =
  className :: string
  trend :: icon
  sign :: string
  percent :: formatted

text \<open>
  The indicator sits inside the block rendered only when \<open>priceData\<close> is set, and is itself
  rendered only when \<open>previousPrice !== null\<close>.
\<close>

definition render_indicator :: "ticker_state \<Rightarrow> indicator option" where
  "render_indicator st =
     (case priceData st of
        None \<Rightarrow> None
      | Some d \<Rightarrow>
          if previousPrice st \<noteq> None
          then Some \<lparr>className = ''flex items-center gap-1 '' @
                        (if isPositive st then ''text-green-400'' else ''text-red-400''),
                      trend = (if isPositive st then TrendingUp else TrendingDown),
                      sign = (if isPositive st then ''+'' else ''''),
                      percent = priceChangePercent st\<rparr>
          else None)"

section \<open>The leaderboard (\<open>Leaderboard\<close>)\<close>

record Trader =
  trader_id :: string
  name :: string
  roi :: number
  portfolio_value :: number

record LeaderboardResponse =
  top_traders :: "Trader list"
  count :: number

text \<open>
  The three \<open>useState\<close> cells of the component. The source calls the last two \<open>loading\<close>
  and \<open>error\<close> as the ticker does; here they carry a prefix to keep the two records apart.
\<close>

record leaderboard_state =
  traders :: "Trader list"
  lb_loading :: bool
  lb_error :: "string option"

definition initial_leaderboard :: leaderboard_state where
  "initial_leaderboard = \<lparr>traders = [], lb_loading = True, lb_error = None\<rparr>"

text \<open>\<open>fetchLeaderboard\<close> after its \<open>await\<close>.\<close>

definition fetchLeaderboard :: "fetch_error + LeaderboardResponse \<Rightarrow> leaderboard_state \<Rightarrow> leaderboard_state" where
  "fetchLeaderboard response st =
     (case response of
        Inr data \<Rightarrow>
          st\<lparr>traders := top_traders data,
             lb_loading := False,
             lb_error := None\<rparr>
      | Inl err \<Rightarrow>
          st\<lparr>lb_error := Some ''Failed to fetch leaderboard'',
             lb_loading := False\<rparr>)"

subsection \<open>Rank badges and rows\<close>

text \<open>A badge is a trophy icon with its class, or a span with its class and text.\<close>

datatype badge = Trophy string | Span string string

definition getRankIcon :: "nat \<Rightarrow> badge" where
  "getRankIcon index =
     (if index = 0 then Trophy ''w-5 h-5 text-yellow-400''
      else if index = 1 then Trophy ''w-5 h-5 text-slate-400''
      else if index = 2 then Trophy ''w-5 h-5 text-amber-600''
      else Span ''text-slate-400 font-semibold'' (''#'' @ decimal (index + 1)))"

text \<open>
  One rendered row. The portfolio value is kept as the number handed to
  \<open>toLocaleString\<close>; the locale's grouping of digits is not rendered here.
\<close>

record row =
  row_key :: string
  row_badge :: badge
  row_name :: string
  row_id :: string
  row_roi :: formatted
  row_value :: number

definition render_row :: "Trader \<Rightarrow> nat \<Rightarrow> row" where
  "render_row trader index =
     \<lparr>row_key = trader_id trader,
      row_badge = getRankIcon index,
      row_name = name trader,
      row_id = ''ID: '' @ take 8 (trader_id trader) @ ''...'',
      row_roi = toFixed 2 (roi trader),
      row_value = portfolio_value trader\<rparr>"

text \<open>\<open>traders.map((trader, index) => ...)\<close>, rendered only when the list is not empty.\<close>

definition render_rows :: "leaderboard_state \<Rightarrow> row list" where
  "render_rows st =
     (if length (traders st) > 0
      then map (\<lambda>(index, trader). render_row trader index) (enumerate 0 (traders st))
      else [])"

section \<open>Life cycle of the two pollers\<close>

subsection \<open>The ticker's effect, intervals and requests in flight\<close>

text \<open>
  The component as React and the browser run it. \<open>intervals\<close> are the intervals that are
  set and not cleared, each with its identifier and the \<open>priceData\<close> that its callback,
  the \<open>fetchPrice\<close> closure of some render, reads. \<open>timer\<close> is what React keeps of the
  current effect: the identifier its cleanup will clear, and the \<open>priceData\<close> of the render
  that set it up. \<open>pending\<close> lists the requests in flight, each with the \<open>priceData\<close> its
  closure reads. Once the component is unmounted React drops every state update, so
  \<open>state\<close> then stays as it was.
\<close>

record ticker =
  state :: ticker_state
  mounted :: bool
  intervals :: "(nat \<times> PriceData option) list"
  timer :: "(nat \<times> PriceData option) option"
  next_timer :: nat
  pending :: "PriceData option list"

text \<open>
  The effect's body: \<open>fetchPrice()\<close> puts a request in flight, and
  \<open>setInterval(fetchPrice, 2000)\<close> sets a new interval; both use this render's closure.
\<close>

definition useEffect :: "ticker \<Rightarrow> ticker" where
  "useEffect c =
     c\<lparr>pending := pending c @ [priceData (state c)],
       intervals := intervals c @ [(next_timer c, priceData (state c))],
       timer := Some (next_timer c, priceData (state c)),
       next_timer := Suc (next_timer c)\<rparr>"

text \<open>The effect's cleanup: \<open>clearInterval(interval)\<close>, for the interval this effect set.\<close>

definition cleanup :: "ticker \<Rightarrow> ticker" where
  "cleanup c =
     (case timer c of
        None \<Rightarrow> c
      | Some (i, captured) \<Rightarrow> c\<lparr>intervals := filter (\<lambda>(j, f). j \<noteq> i) (intervals c)\<rparr>)"

text \<open>
  After a render React compares the dependency \<open>priceData?.price\<close> with its value in the
  render that set the current effect up; when it differs, the cleanup runs and then the
  effect again.
\<close>

definition rerender :: "ticker \<Rightarrow> ticker" where
  "rerender c =
     (case timer c of
        None \<Rightarrow> c
      | Some (i, captured) \<Rightarrow>
          if map_option price (priceData (state c)) \<noteq> map_option price captured
          then useEffect (cleanup c)
          else c)"

definition mount :: ticker where
  "mount =
     useEffect \<lparr>state = initial_ticker, mounted = True, intervals = [], timer = None,
                next_timer = 0, pending = []\<rparr>"

text \<open>
  What can happen next: interval \<open>i\<close> fires if it is still set, the request at position
  \<open>k\<close> of \<open>pending\<close> completes with a response, or the component is unmounted, which runs
  the cleanup of the current effect.
\<close>

datatype event = Tick nat | Resolve nat "fetch_error + PriceData" | Unmount

fun step :: "event \<Rightarrow> ticker \<Rightarrow> ticker" where
  "step (Tick i) c =
     (case map_of (intervals c) i of
        None \<Rightarrow> c
      | Some captured \<Rightarrow> c\<lparr>pending := pending c @ [captured]\<rparr>)"
| "step (Resolve k response) c =
     (if k < length (pending c) then
        let captured = pending c ! k;
            c' = c\<lparr>pending := take k (pending c) @ drop (Suc k) (pending c)\<rparr>
        in if mounted c
           then rerender (c'\<lparr>state := fetchPrice captured response (state c)\<rparr>)
           else c'
      else c)"
| "step Unmount c = (cleanup c)\<lparr>timer := None, mounted := False\<rparr>"

definition run :: "ticker \<Rightarrow> event list \<Rightarrow> ticker" where
  "run c evs = foldl (\<lambda>c e. step e c) c evs"

text \<open>
  Polling without overlap: when no request is in flight the interval fires, and the one
  request in flight completes before anything else happens.
\<close>

definition poll :: "fetch_error + PriceData \<Rightarrow> ticker \<Rightarrow> ticker" where
  "poll response c =
     step (Resolve 0 response)
       (if pending c = []
        then (case timer c of None \<Rightarrow> c | Some (i, captured) \<Rightarrow> step (Tick i) c)
        else c)"

definition polls :: "ticker \<Rightarrow> (fetch_error + PriceData) list \<Rightarrow> ticker" where
  "polls c responses = foldl (\<lambda>c r. poll r c) c responses"

subsection \<open>The leaderboard's effect, interval and requests in flight\<close>

text \<open>
  The leaderboard's effect has no dependency: it runs once, when the component is
  mounted, and its cleanup runs when the component is unmounted. Its closure reads no
  state, so a request in flight is only counted.
\<close>

record board =
  lb_state :: leaderboard_state
  lb_mounted :: bool
  lb_timer :: "nat option"
  lb_pending :: nat

definition lb_mount :: board where
  "lb_mount =
     \<lparr>lb_state = initial_leaderboard, lb_mounted = True, lb_timer = Some 0, lb_pending = 1\<rparr>"

datatype lb_event = LbTick nat | LbResolve "fetch_error + LeaderboardResponse" | LbUnmount

definition lb_cleanup :: "board \<Rightarrow> board" where
  "lb_cleanup c = c\<lparr>lb_timer := None\<rparr>"

fun lb_step :: "lb_event \<Rightarrow> board \<Rightarrow> board" where
  "lb_step (LbTick i) c =
     (if lb_timer c = Some i then c\<lparr>lb_pending := Suc (lb_pending c)\<rparr> else c)"
| "lb_step (LbResolve response) c =
     (if 0 < lb_pending c then
        let c' = c\<lparr>lb_pending := lb_pending c - 1\<rparr>
        in if lb_mounted c
           then c'\<lparr>lb_state := fetchLeaderboard response (lb_state c)\<rparr>
           else c'
      else c)"
| "lb_step LbUnmount c = (lb_cleanup c)\<lparr>lb_mounted := False\<rparr>"

definition lb_run :: "board \<Rightarrow> lb_event list \<Rightarrow> board" where
  "lb_run c evs = foldl (\<lambda>c e. lb_step e c) c evs"

subsection \<open>The phases the specification names\<close>

text \<open>
  The specification's phases read off the state: cancelled once unmounted, loading while
  the \<open>loading\<close> flag is set, and otherwise success or failure by the error cell.
\<close>

datatype phase = Loading | Success | Failure | Cancelled

definition phase :: "ticker \<Rightarrow> phase" where
  "phase c =
     (if \<not> mounted c then Cancelled
      else if loading (state c) then Loading
      else if error (state c) = None then Success
      else Failure)"

definition lb_phase :: "board \<Rightarrow> phase" where
  "lb_phase c =
     (if \<not> lb_mounted c then Cancelled
      else if lb_loading (lb_state c) then Loading
      else if lb_error (lb_state c) = None then Success
      else Failure)"

subsection \<open>Closures in step with the state\<close>

text \<open>
  The component is mounted, the one interval set is that of the current effect, the price
  read by its closure is the price held, and at most one request is in flight, whose
  closure reads the price held too.
\<close>

definition in_step :: "ticker \<Rightarrow> bool" where
  "in_step c =
     (mounted c \<and>
      (case timer c of
         None \<Rightarrow> False
       | Some (i, captured) \<Rightarrow>
           intervals c = [(i, captured)] \<and>
           map_option price captured = map_option price (priceData (state c))) \<and>
      (case pending c of
         [] \<Rightarrow> True
       | captured # rest \<Rightarrow>
           rest = [] \<and> map_option price captured = map_option price (priceData (state c))))"

text \<open>The intervals that are set are the one of the current effect, if there is one.\<close>

definition one_interval :: "ticker \<Rightarrow> bool" where
  "one_interval c = (intervals c = (case timer c of None \<Rightarrow> [] | Some t \<Rightarrow> [t]))"

subsection \<open>A payload for the examples\<close>

definition quote :: "number \<Rightarrow> PriceData" where
  "quote p =
     \<lparr>symbol = ''BTC/USDT'', price = p, bid = p, ask = p, high = p, low = p,
      volume = 0, timestamp = 0\<rparr>"

definition trader :: "string \<Rightarrow> number \<Rightarrow> Trader" where
  "trader n r = \<lparr>trader_id = n, name = n, roi = r, portfolio_value = 0\<rparr>"

section \<open>Rounding to a double\<close>

lemma floorlog_2_zero: "floorlog 2 0 = 0"
  by (simp add: floorlog_def)

lemma floorlog_2_pos: "0 < n \<Longrightarrow> floorlog 2 n = Suc (floorlog 2 (n div 2))"
  by (subst compute_floorlog) simp

text \<open>The definitions a concrete rounding is evaluated with.\<close>

lemmas fl_eval = fl_def exponent_def round_even_def Let_def floorlog_2_zero floorlog_2_pos
  power_int_minus

lemma round_even_nonneg: "0 \<le> x \<Longrightarrow> 0 \<le> round_even x"
  by (auto simp: round_even_def Let_def)

lemma round_even_of_int: "round_even (of_int n) = n"
  by (simp add: round_even_def)

lemma round_even_le_minus_one:
  assumes "x \<le> - 1"
  shows "round_even x \<le> - 1"
proof -
  have f: "\<lfloor>x\<rfloor> \<le> - 1" using assms by (simp add: floor_le_iff)
  show ?thesis
  proof (cases "\<lfloor>x\<rfloor> = - 1")
    case True
    then have "- 1 \<le> x" using of_int_floor_le [of x] by simp
    then have "x = of_int (- 1)" using assms by simp
    then show ?thesis by (simp only: round_even_of_int)
  next
    case False
    then have "\<lfloor>x\<rfloor> + 1 \<le> - 1" using f by linarith
    then show ?thesis using f by (auto simp: round_even_def Let_def)
  qed
qed

lemma quantum_pos: "0 < (2::real) powi e"
  by (simp add: power_int_def)

lemma exponent_lower:
  assumes "x \<noteq> 0"
  shows "2 powi (exponent x) \<le> \<bar>x\<bar>"
proof (cases "1 \<le> \<bar>x\<bar>")
  case True
  define n where "n = nat \<lfloor>\<bar>x\<bar>\<rfloor>"
  have n: "0 < n" using True by (simp add: n_def)
  have "(2::nat) ^ (floorlog 2 n - 1) \<le> n"
    using floorlog_bounds [of n 2] n by simp
  then have "(2::real) ^ (floorlog 2 n - 1) \<le> real n"
    by (metis of_nat_le_iff of_nat_numeral of_nat_power)
  moreover have "real n \<le> \<bar>x\<bar>" by (simp add: n_def)
  ultimately have a: "(2::real) ^ (floorlog 2 n - 1) \<le> \<bar>x\<bar>" by (rule order_trans)
  have "0 < floorlog 2 n" using floorlog_2_pos [OF n] by simp
  then have "exponent x = int (floorlog 2 n - 1)"
    using True by (simp add: exponent_def n_def)
  then have "2 powi (exponent x) = (2::real) ^ (floorlog 2 n - 1)"
    by (simp only: power_int_of_nat)
  then show ?thesis using a by simp
next
  case False
  define y where "y = 1 / \<bar>x\<bar>"
  define m where "m = nat \<lceil>y\<rceil>"
  define k where "k = floorlog 2 (m - 1)"
  have y: "1 < y" using False assms by (simp add: y_def)
  then have m: "2 \<le> m" unfolding m_def by (simp add: le_nat_iff less_ceiling_iff Suc_le_eq)
  have "m - 1 < 2 ^ k"
    using floorlog_bounds [of "m - 1" 2] m by (simp add: k_def)
  then have "m \<le> 2 ^ k" by simp
  then have "real m \<le> 2 ^ k"
    by (metis of_nat_le_iff of_nat_numeral of_nat_power)
  moreover have "y \<le> real m" using y by (simp add: m_def of_nat_ceiling)
  ultimately have "y \<le> 2 ^ k" by linarith
  then have a: "1 / 2 ^ k \<le> \<bar>x\<bar>"
    using assms by (simp add: y_def field_simps)
  have "exponent x = - int k"
    using False by (simp add: exponent_def k_def m_def y_def)
  then have "2 powi (exponent x) = 1 / (2::real) ^ k"
    by (simp add: power_int_minus_divide)
  then show ?thesis using a by simp
qed

text \<open>Every double is a whole multiple of the least spacing.\<close>

lemma double_grid:
  assumes "is_double a"
  shows "\<exists>k::int. a = of_int k * 2 powi (- 1074)"
proof (cases "a = 0")
  case True
  then have "a = of_int 0 * 2 powi (- 1074)" by simp
  then show ?thesis by blast
next
  case False
  define e where "e = max (exponent a) (- 1022)"
  define n where "n = round_even (a / 2 powi (e - 52))"
  have "fl a = Finite a" using assms by (simp add: is_double_def)
  then have a: "a = of_int n * 2 powi (e - 52)"
    using False by (simp add: fl_def Let_def e_def n_def split: if_splits)
  have "0 \<le> e + 1022" by (simp add: e_def)
  then have "(2::real) powi (e + 1022) = 2 ^ nat (e + 1022)"
    by (simp add: power_int_def)
  moreover have "(2::real) powi (e - 52) = 2 powi (e + 1022) * 2 powi (- 1074)"
    using power_int_add [of "2::real" "e + 1022" "- 1074"] by simp
  ultimately have "a = of_int (n * 2 ^ nat (e + 1022)) * 2 powi (- 1074)"
    using a by simp
  then show ?thesis by blast
qed

text \<open>
  The difference of two doubles, rounded, has the sign of the exact difference: two
  different doubles are at least the least spacing apart, so their difference does not
  round to zero.
\<close>

lemma fl_sub_sign:
  assumes "is_double a" and "is_double b"
  shows "ge_zero (fl (a - b)) \<longleftrightarrow> b \<le> a"
proof -
  define x where "x = a - b"
  define e where "e = max (exponent x) (- 1022)"
  define q :: real where "q = 2 powi (e - 52)"
  define n where "n = round_even (x / q)"
  have q: "0 < q" by (simp add: q_def quantum_pos)
  have f: "fl x = (if 2 ^ 1024 \<le> \<bar>of_int n * q\<bar>
      then (if 0 < x then PosInfinity else NegInfinity) else Finite (of_int n * q))"
    if "x \<noteq> 0"
    using that by (simp add: fl_def Let_def e_def q_def n_def)
  consider "x = 0" | "0 < x" | "x < 0" by linarith
  then have "ge_zero (fl x) \<longleftrightarrow> 0 \<le> x"
  proof cases
    case 1
    then show ?thesis by (simp add: fl_def)
  next
    case 2
    then have "0 \<le> x / q" using q by simp
    then have "0 \<le> n" unfolding n_def by (rule round_even_nonneg)
    then have "0 \<le> of_int n * q" using q by simp
    then show ?thesis using 2 f by simp
  next
    case 3
    obtain ka kb :: int where ka: "a = of_int ka * 2 powi (- 1074)"
      and kb: "b = of_int kb * 2 powi (- 1074)"
      using double_grid assms by blast
    define u :: real where "u = 2 powi (- 1074)"
    have u: "0 < u" by (simp add: u_def quantum_pos)
    have xk: "x = of_int (ka - kb) * u"
      by (simp add: x_def ka kb u_def algebra_simps)
    then have "of_int (ka - kb) * u < 0" using 3 by simp
    then have "real_of_int (ka - kb) < 0" using u by (simp add: mult_less_0_iff)
    then have "ka - kb \<le> - 1" by linarith
    then have "real_of_int (ka - kb) \<le> - 1" by linarith
    then have "of_int (ka - kb) * u \<le> - 1 * u"
      using u by (simp only: mult_le_cancel_right_pos)
    then have xu: "x \<le> - u" using xk by simp
    have "q \<le> - x"
    proof (cases "- 1022 \<le> exponent x")
      case True
      then have "e = exponent x" by (simp add: e_def)
      then have "q \<le> 2 powi (exponent x)"
        using power_int_increasing [of "exponent x - 52" "exponent x" "2::real"]
        by (simp add: q_def)
      moreover have "2 powi (exponent x) \<le> \<bar>x\<bar>"
        using 3 by (intro exponent_lower) simp
      ultimately show ?thesis using 3 by simp
    next
      case False
      then have "e = - 1022" by (simp add: e_def)
      then have "q = u" by (simp add: q_def u_def)
      then show ?thesis using xu by simp
    qed
    then have "x / q \<le> - 1" using q by (simp add: field_simps)
    then have "n \<le> - 1" unfolding n_def by (rule round_even_le_minus_one)
    then have "real_of_int n \<le> - 1" by linarith
    then have "of_int n * q \<le> - 1 * q"
      using q by (simp only: mult_le_cancel_right_pos)
    then have "of_int n * q < 0" using q by simp
    then show ?thesis using 3 f by simp
  qed
  then show ?thesis by (simp add: x_def)
qed

section \<open>Decimal digits and two decimal places\<close>

lemma decimal_small: "n < 10 \<Longrightarrow> decimal n = [digit n]"
  by (simp add: decimal.simps)

lemma decimal_large: "10 \<le> n \<Longrightarrow> decimal n = decimal (n div 10) @ [digit (n mod 10)]"
  by (subst decimal.simps) simp

lemma length_decimal_pos: "0 < length (decimal n)"
  by (subst decimal.simps) simp

lemma decimal_hundreds:
  assumes "100 \<le> n"
  shows "decimal n = decimal (n div 100) @ [digit (n div 10 mod 10), digit (n mod 10)]"
proof -
  have a: "decimal n = decimal (n div 10) @ [digit (n mod 10)]"
    using assms by (simp add: decimal_large)
  have "10 \<le> n div 10" using assms by simp
  then have b: "decimal (n div 10) = decimal (n div 10 div 10) @ [digit (n div 10 mod 10)]"
    by (rule decimal_large)
  have c: "n div 10 div 10 = n div 100" by (simp add: div_mult2_eq[symmetric])
  show ?thesis using a b c by simp
qed

lemma point_2:
  "point 2 (decimal n) = decimal (n div 100) @ ''.'' @ [digit (n div 10 mod 10), digit (n mod 10)]"
proof -
  consider "n < 10" | "10 \<le> n" "n < 100" | "100 \<le> n" by linarith
  then show ?thesis
  proof cases
    case 1
    then have "decimal n = [digit n]" by (simp add: decimal_small)
    moreover have "n div 100 = 0" "n div 10 mod 10 = 0" "n mod 10 = n" using 1 by simp_all
    ultimately show ?thesis
      by (simp add: point_def decimal_small digit_def)
  next
    case 2
    then have "decimal n = [digit (n div 10), digit (n mod 10)]"
      by (simp add: decimal_large decimal_small)
    moreover have "n div 100 = 0" "n div 10 mod 10 = n div 10" using 2 by simp_all
    ultimately show ?thesis
      by (simp add: point_def decimal_small digit_def)
  next
    case 3
    then have e: "decimal n = decimal (n div 100) @ [digit (n div 10 mod 10), digit (n mod 10)]"
      by (simp add: decimal_hundreds)
    have "0 < length (decimal (n div 100))" by (rule length_decimal_pos)
    then show ?thesis
      by (simp add: point_def e)
  qed
qed



lemma toFixed_two_decimals:
  assumes "\<bar>x\<bar> < 10 ^ 21"
  shows "toFixed 2 x = Fixed (two_decimals x)"
proof (cases "x < 0")
  case True
  then have a: "\<bar>x\<bar> = - x" by simp
  have "\<not> 10 ^ 21 \<le> - x" using assms a by simp
  then show ?thesis
    using True unfolding toFixed_def two_decimals_def Let_def a
    by (simp add: point_2)
next
  case False
  then have a: "\<bar>x\<bar> = x" by simp
  have "\<not> 10 ^ 21 \<le> x" using assms a by simp
  then show ?thesis
    using False unfolding toFixed_def two_decimals_def Let_def a
    by (simp add: point_2)
qed


section \<open>Rows and positions\<close>

lemma map_snd_enumerate_fun: "map (\<lambda>x. f (snd x)) (enumerate n xs) = map f xs"
  by (induction xs arbitrary: n) simp_all

lemma map_fst_enumerate_fun: "map (\<lambda>x. f (fst x)) (enumerate n xs) = map f [n..<n + length xs]"
  by (induction xs arbitrary: n) (simp_all add: upt_rec)

section \<open>Polling without overlap\<close>

lemma fetchPrice_captured_price:
  "map_option price a = map_option price b \<Longrightarrow> fetchPrice a r st = fetchPrice b r st"
  by (simp add: fetchPrice_def split: sum.split)

lemma in_step_mount: "in_step mount"
  by (simp add: in_step_def mount_def useEffect_def)

lemma run_snoc: "run c (evs @ [e]) = step e (run c evs)"
  by (simp add: run_def)

lemma polls_snoc: "polls c (rs @ [r]) = poll r (polls c rs)"
  by (simp add: polls_def)

lemma polls_Nil: "polls c [] = c"
  by (simp add: polls_def)

lemma state_rerender: "state (rerender c) = state c"
  by (simp add: rerender_def useEffect_def cleanup_def split: option.split prod.split)

lemma mounted_rerender: "mounted (rerender c) = mounted c"
  by (simp add: rerender_def useEffect_def cleanup_def split: option.split prod.split)

lemma step_Resolve_mounted:
  "mounted c \<Longrightarrow> k < length (pending c) \<Longrightarrow>
   step (Resolve k r) c =
     rerender (c\<lparr>pending := take k (pending c) @ drop (Suc k) (pending c),
                 state := fetchPrice (pending c ! k) r (state c)\<rparr>)"
  by (simp add: Let_def)

lemma poll_in_step:
  assumes "in_step c"
  shows "\<exists>cap. map_option price cap = map_option price (priceData (state c)) \<and>
           poll r c = rerender (c\<lparr>pending := [], state := fetchPrice cap r (state c)\<rparr>)"
proof -
  obtain i cap where t: "timer c = Some (i, cap)"
    and iv: "intervals c = [(i, cap)]"
    and p: "map_option price cap = map_option price (priceData (state c))"
    using assms by (auto simp: in_step_def split: option.splits)
  have m: "mounted c" using assms by (simp add: in_step_def)
  show ?thesis
  proof (cases "pending c")
    case Nil
    then have "poll r c = step (Resolve 0 r) (c\<lparr>pending := [cap]\<rparr>)"
      using t iv by (simp add: poll_def)
    also have "\<dots> = rerender (c\<lparr>pending := [], state := fetchPrice cap r (state c)\<rparr>)"
      using m by (simp add: step_Resolve_mounted)
    finally show ?thesis using p by blast
  next
    case (Cons cap' rest)
    then have q: "map_option price cap' = map_option price (priceData (state c))"
      and r: "rest = []"
      using assms by (simp_all add: in_step_def)
    have "poll r c = step (Resolve 0 r) c"
      using Cons by (simp add: poll_def)
    also have "\<dots> = rerender (c\<lparr>pending := [], state := fetchPrice cap' r (state c)\<rparr>)"
      using m Cons r by (simp add: step_Resolve_mounted)
    finally show ?thesis using q by blast
  qed
qed

lemma in_step_rerender:
  assumes "mounted c" and "timer c = Some (i, cap)" and "intervals c = [(i, cap)]"
    and "pending c = []"
  shows "in_step (rerender c)"
proof (cases "map_option price (priceData (state c)) = map_option price cap")
  case True
  then have "rerender c = c" using assms(2) by (simp add: rerender_def)
  then show ?thesis using assms True by (simp add: in_step_def)
next
  case False
  then have "rerender c = useEffect (cleanup c)" using assms(2) by (simp add: rerender_def)
  then show ?thesis using assms by (simp add: in_step_def useEffect_def cleanup_def)
qed

lemma poll_state:
  assumes "in_step c"
  shows "state (poll r c) = fetchPrice (priceData (state c)) r (state c)"
proof -
  obtain cap where p: "map_option price cap = map_option price (priceData (state c))"
    and e: "poll r c = rerender (c\<lparr>pending := [], state := fetchPrice cap r (state c)\<rparr>)"
    using poll_in_step [OF assms] by blast
  have "state (poll r c) = fetchPrice cap r (state c)"
    by (simp add: e state_rerender)
  then show ?thesis using fetchPrice_captured_price [OF p, of r "state c"] by simp
qed

lemma in_step_poll:
  assumes "in_step c"
  shows "in_step (poll r c)"
proof -
  obtain cap where
    e: "poll r c = rerender (c\<lparr>pending := [], state := fetchPrice cap r (state c)\<rparr>)"
    using poll_in_step [OF assms] by blast
  obtain i cap' where "timer c = Some (i, cap')" and "intervals c = [(i, cap')]"
    using assms by (auto simp: in_step_def split: option.splits)
  moreover have "mounted c" using assms by (simp add: in_step_def)
  ultimately show ?thesis
    unfolding e by (intro in_step_rerender [of _ i cap']) simp_all
qed

lemma in_step_polls: "in_step c \<Longrightarrow> in_step (polls c rs)"
proof (induction rs rule: rev_induct)
  case Nil
  then show ?case by (simp add: polls_Nil)
next
  case (snoc r rs)
  then show ?case by (simp add: polls_snoc in_step_poll)
qed

lemma polls_state_snoc:
  "state (polls mount (rs @ [r])) =
     fetchPrice (priceData (state (polls mount rs))) r (state (polls mount rs))"
  by (simp add: polls_snoc poll_state in_step_polls in_step_mount)

section \<open>Events, intervals and phases\<close>

lemma run_Nil: "run c [] = c"
  by (simp add: run_def)

lemma run_Cons: "run c (e # evs) = run (step e c) evs"
  by (simp add: run_def)

lemma lb_run_Nil: "lb_run c [] = c"
  by (simp add: lb_run_def)

lemma lb_run_Cons: "lb_run c (e # evs) = lb_run (lb_step e c) evs"
  by (simp add: lb_run_def)

subsection \<open>Only the current effect's interval is set\<close>

lemma one_interval_mount: "one_interval mount"
  by (simp add: one_interval_def mount_def useEffect_def)

lemma one_interval_rerender:
  assumes "one_interval c"
  shows "one_interval (rerender c)"
proof (cases "timer c")
  case None
  then show ?thesis using assms by (simp add: rerender_def)
next
  case (Some t)
  obtain i cap where t: "t = (i, cap)" by (cases t)
  have iv: "intervals c = [(i, cap)]"
    using assms Some t by (simp add: one_interval_def)
  show ?thesis
  proof (cases "map_option price (priceData (state c)) = map_option price cap")
    case True
    then have "rerender c = c" using Some t by (simp add: rerender_def)
    then show ?thesis using assms by simp
  next
    case False
    then have "rerender c = useEffect (cleanup c)" using Some t by (simp add: rerender_def)
    then show ?thesis
      using Some t iv by (simp add: one_interval_def useEffect_def cleanup_def)
  qed
qed

lemma one_interval_step:
  assumes "one_interval c"
  shows "one_interval (step e c)"
proof (cases e)
  case (Tick i)
  then show ?thesis
    using assms by (simp add: one_interval_def split: option.split)
next
  case (Resolve k r)
  show ?thesis
  proof (cases "k < length (pending c) \<and> mounted c")
    case True
    have "one_interval (c\<lparr>pending := take k (pending c) @ drop (Suc k) (pending c),
        state := fetchPrice (pending c ! k) r (state c)\<rparr>)"
      using assms by (simp add: one_interval_def)
    then show ?thesis
      using True Resolve by (simp add: step_Resolve_mounted one_interval_rerender)
  next
    case False
    then show ?thesis using assms Resolve by (auto simp: one_interval_def Let_def)
  qed
next
  case Unmount
  show ?thesis
  proof (cases "timer c")
    case None
    then show ?thesis using assms Unmount by (simp add: one_interval_def cleanup_def)
  next
    case (Some t)
    obtain i cap where "t = (i, cap)" by (cases t)
    then show ?thesis
      using assms Unmount Some by (simp add: one_interval_def cleanup_def)
  qed
qed

lemma one_interval_run: "one_interval c \<Longrightarrow> one_interval (run c evs)"
proof (induction evs arbitrary: c)
  case Nil
  then show ?case by (simp add: run_Nil)
next
  case (Cons e evs)
  then show ?case by (simp add: run_Cons one_interval_step)
qed

subsection \<open>After the component is unmounted\<close>

lemma unmount_clears:
  assumes "one_interval c"
  shows "intervals (step Unmount c) = [] \<and> timer (step Unmount c) = None \<and>
         \<not> mounted (step Unmount c) \<and> state (step Unmount c) = state c"
proof (cases "timer c")
  case None
  then show ?thesis using assms by (simp add: one_interval_def cleanup_def)
next
  case (Some t)
  obtain i cap where "t = (i, cap)" by (cases t)
  then show ?thesis using assms Some by (simp add: one_interval_def cleanup_def)
qed

lemma step_Tick_none: "intervals c = [] \<Longrightarrow> step (Tick i) c = c"
  by simp

lemma step_quiet:
  assumes "intervals c = []" and "timer c = None" and "\<not> mounted c"
  shows "intervals (step e c) = [] \<and> timer (step e c) = None \<and>
         \<not> mounted (step e c) \<and> state (step e c) = state c"
  using assms by (cases e) (simp_all add: cleanup_def Let_def)

lemma run_quiet:
  "intervals c = [] \<Longrightarrow> timer c = None \<Longrightarrow> \<not> mounted c \<Longrightarrow>
   intervals (run c evs) = [] \<and> timer (run c evs) = None \<and>
   \<not> mounted (run c evs) \<and> state (run c evs) = state c"
proof (induction evs arbitrary: c)
  case Nil
  then show ?case by (simp add: run_Nil)
next
  case (Cons e evs)
  have s: "intervals (step e c) = []" "timer (step e c) = None" "\<not> mounted (step e c)"
    "state (step e c) = state c"
    using step_quiet [OF Cons.prems] by simp_all
  show ?case using Cons.IH [OF s(1,2,3)] s(4) by (simp add: run_Cons)
qed

lemma step_unmounted:
  "\<not> mounted c \<Longrightarrow> \<not> mounted (step e c) \<and> state (step e c) = state c"
  by (cases e) (simp_all add: cleanup_def Let_def split: option.split prod.split)

lemma run_unmounted:
  "\<not> mounted c \<Longrightarrow> \<not> mounted (run c evs) \<and> state (run c evs) = state c"
proof (induction evs arbitrary: c)
  case Nil
  then show ?case by (simp add: run_Nil)
next
  case (Cons e evs)
  have "\<not> mounted (step e c)" and "state (step e c) = state c"
    using Cons.prems step_unmounted by blast+
  then show ?case using Cons.IH [of "step e c"] by (simp add: run_Cons)
qed

lemma lb_step_quiet:
  assumes "lb_timer c = None" and "\<not> lb_mounted c"
  shows "lb_timer (lb_step e c) = None \<and> \<not> lb_mounted (lb_step e c) \<and>
         lb_state (lb_step e c) = lb_state c"
  using assms by (cases e) (simp_all add: lb_cleanup_def Let_def)

lemma lb_run_quiet:
  "lb_timer c = None \<Longrightarrow> \<not> lb_mounted c \<Longrightarrow>
   lb_timer (lb_run c evs) = None \<and> \<not> lb_mounted (lb_run c evs) \<and>
   lb_state (lb_run c evs) = lb_state c"
proof (induction evs arbitrary: c)
  case Nil
  then show ?case by (simp add: lb_run_Nil)
next
  case (Cons e evs)
  have s: "lb_timer (lb_step e c) = None" "\<not> lb_mounted (lb_step e c)"
    "lb_state (lb_step e c) = lb_state c"
    using lb_step_quiet [OF Cons.prems] by simp_all
  show ?case using Cons.IH [OF s(1,2)] s(3) by (simp add: lb_run_Cons)
qed

lemma lb_step_unmounted:
  "\<not> lb_mounted c \<Longrightarrow> \<not> lb_mounted (lb_step e c) \<and> lb_state (lb_step e c) = lb_state c"
  by (cases e) (simp_all add: lb_cleanup_def Let_def)

lemma lb_run_unmounted:
  "\<not> lb_mounted c \<Longrightarrow> \<not> lb_mounted (lb_run c evs) \<and> lb_state (lb_run c evs) = lb_state c"
proof (induction evs arbitrary: c)
  case Nil
  then show ?case by (simp add: lb_run_Nil)
next
  case (Cons e evs)
  have "\<not> lb_mounted (lb_step e c)" and "lb_state (lb_step e c) = lb_state c"
    using Cons.prems lb_step_unmounted by blast+
  then show ?case using Cons.IH [of "lb_step e c"] by (simp add: lb_run_Cons)
qed

subsection \<open>Phases\<close>

lemma phase_Tick: "phase (step (Tick i) c) = phase c"
  by (simp add: phase_def split: option.split)

lemma phase_rerender: "phase (rerender c) = phase c"
  by (simp add: phase_def state_rerender mounted_rerender)

lemma phase_Resolve:
  assumes "mounted c" and "k < length (pending c)"
  shows "phase (step (Resolve k (Inr d)) c) = Success"
    and "phase (step (Resolve k (Inl err)) c) = Failure"
  using assms
  by (simp_all add: step_Resolve_mounted phase_rerender)
     (simp_all add: phase_def fetchPrice_def)

lemma phase_step_not_Loading:
  assumes "phase c \<noteq> Loading"
  shows "phase (step e c) \<noteq> Loading"
proof (cases e)
  case (Tick i)
  then show ?thesis using assms phase_Tick [of i c] by simp
next
  case (Resolve k r)
  show ?thesis
  proof (cases "k < length (pending c) \<and> mounted c")
    case True
    then show ?thesis
      using Resolve phase_Resolve [of c k] by (cases r) simp_all
  next
    case False
    then have "phase (step e c) = phase c"
      using Resolve by (auto simp: phase_def Let_def)
    then show ?thesis using assms by simp
  qed
next
  case Unmount
  then show ?thesis by (simp add: phase_def)
qed

lemma phase_run_not_Loading:
  "phase c \<noteq> Loading \<Longrightarrow> phase (run c evs) \<noteq> Loading"
proof (induction evs arbitrary: c)
  case Nil
  then show ?case by (simp add: run_Nil)
next
  case (Cons e evs)
  then show ?case by (simp add: run_Cons phase_step_not_Loading)
qed

lemma phase_Cancelled: "phase c = Cancelled \<longleftrightarrow> \<not> mounted c"
  by (simp add: phase_def)

lemma lb_phase_Cancelled: "lb_phase c = Cancelled \<longleftrightarrow> \<not> lb_mounted c"
  by (simp add: lb_phase_def)

lemma lb_phase_step_not_Loading:
  assumes "lb_phase c \<noteq> Loading"
  shows "lb_phase (lb_step e c) \<noteq> Loading"
proof (cases e)
  case (LbTick i)
  then show ?thesis using assms by (auto simp: lb_phase_def)
next
  case (LbResolve r)
  then show ?thesis using assms
    by (cases r) (auto simp: lb_phase_def fetchLeaderboard_def Let_def)
next
  case LbUnmount
  then show ?thesis by (simp add: lb_phase_def)
qed

lemma lb_phase_run_not_Loading:
  "lb_phase c \<noteq> Loading \<Longrightarrow> lb_phase (lb_run c evs) \<noteq> Loading"
proof (induction evs arbitrary: c)
  case Nil
  then show ?case by (simp add: lb_run_Nil)
next
  case (Cons e evs)
  then show ?case by (simp add: lb_run_Cons lb_phase_step_not_Loading)
qed

text \<open>The definitions a concrete trace is evaluated with.\<close>

lemmas trace_defs = run_def polls_def poll_def mount_def useEffect_def cleanup_def rerender_def
      fetchPrice_def or_null_def truthy_def quote_def initial_ticker_def Let_def

section \<open>Properties of the delta calculator\<close>

text \<open>
  Claim C3, as amended. From 50000 to 51000 the calculator gives the text \<open>2.00\<close> with a
  positive sign. In general, with a previous price that is present and not zero, the
  change is the difference of the two prices rounded to a double, and the percentage text
  is \<open>toFixed(2)\<close> of the double that results from dividing the change by the previous
  price and multiplying by 100, each operation rounded to the nearest double; when that
  double is finite and below \<open>10^21\<close> in magnitude, the text is that double formatted to
  exactly two decimal places. For prices that are doubles the sign flag is positive
  exactly when current minus previous is at least zero.
\<close>

theorem delta_percentage:
  assumes "priceData st = Some d" and "previousPrice st = Some p" and "p \<noteq> 0"
  shows "priceChange st = fsub (price d) p \<and>
         priceChangePercent st = toFixed_of 2 (fmul (fdiv (fsub (price d) p) p) 100) \<and>
         (fmul (fdiv (fsub (price d) p) p) 100 = Finite y \<and> \<bar>y\<bar> < 10 ^ 21 \<longrightarrow>
            priceChangePercent st = Fixed (two_decimals y)) \<and>
         (is_double (price d) \<and> is_double p \<longrightarrow> (isPositive st \<longleftrightarrow> 0 \<le> price d - p))"
proof -
  have t: "truthy (previousPrice st)" using assms(2,3) by (simp add: truthy_def)
  have c: "priceChange st = fsub (price d) p"
    using assms(1,2) t by (simp add: priceChange_def)
  have f: "priceChangePercent st = toFixed_of 2 (fmul (fdiv (fsub (price d) p) p) 100)"
    using assms(1,2) t c by (simp add: priceChangePercent_def)
  have g: "priceChangePercent st = Fixed (two_decimals y)"
    if "fmul (fdiv (fsub (price d) p) p) 100 = Finite y" and "\<bar>y\<bar> < 10 ^ 21"
    using that f by (simp add: toFixed_two_decimals)
  have s: "isPositive st \<longleftrightarrow> 0 \<le> price d - p"
    if "is_double (price d)" and "is_double p"
    using fl_sub_sign [OF that] c by (simp add: isPositive_def fsub_def)
  show ?thesis using c f g s by blast
qed

theorem delta_percentage_witness:
  "priceChangePercent (fetchPrice (Some (quote 50000)) (Inr (quote 51000)) initial_ticker) =
     Fixed ''2.00'' \<and>
   isPositive (fetchPrice (Some (quote 50000)) (Inr (quote 51000)) initial_ticker)"
proof -
  let ?st = "fetchPrice (Some (quote 50000)) (Inr (quote 51000)) initial_ticker"
  have a: "priceData ?st = Some (quote 51000)" "previousPrice ?st = Some 50000"
    by (simp_all add: fetchPrice_def or_null_def truthy_def quote_def)
  have n: "(50000::real) \<noteq> 0" by simp
  have pd: "price (quote 51000) = 51000" by (simp add: quote_def)
  have b: "fsub 51000 50000 = Finite 1000"
    by (simp add: fsub_def fl_eval)
  have c: "fdiv (Finite 1000) 50000 = Finite (5764607523034235 / 288230376151711744)"
    by (simp add: fl_eval)
  have d: "fmul (Finite (5764607523034235 / 288230376151711744)) 100 = Finite 2"
    by (simp add: fl_eval)
  have r: "fmul (fdiv (fsub (price (quote 51000)) 50000) 50000) 100 = Finite 2"
    by (simp only: pd b c d)
  have e: "is_double (price (quote 51000))" "is_double 50000"
    by (simp_all add: is_double_def pd fl_eval)
  have f: "two_decimals 2 = ''2.00''"
    by (simp add: two_decimals_def decimal_small digit_def)
  note t = delta_percentage [OF a n, where y = 2]
  have lt: "\<bar>2::real\<bar> < 10 ^ 21" by simp
  have ge: "0 \<le> price (quote 51000) - 50000" by (simp add: pd)
  have "priceChangePercent ?st = Fixed (two_decimals 2)"
    using t r lt by blast
  moreover have "isPositive ?st"
    using t e ge by blast
  ultimately show ?thesis by (simp only: f simp_thms)
qed

text \<open>
  The claim as first stated formats the exact quotient. From 4000 to 3941 the exact
  percentage is \<open>-1.475\<close>, which formats to \<open>-1.48\<close>; the doubles give a value just above
  it and the text \<open>-1.47\<close>.
\<close>

theorem delta_percentage_counterexample:
  "priceChangePercent (fetchPrice (Some (quote 4000)) (Inr (quote 3941)) initial_ticker) =
     Fixed ''-1.47'' \<and>
   two_decimals ((3941 - 4000) / 4000 * 100) = ''-1.48''"
proof -
  let ?st = "fetchPrice (Some (quote 4000)) (Inr (quote 3941)) initial_ticker"
  have a: "priceData ?st = Some (quote 3941)" "previousPrice ?st = Some 4000"
    by (simp_all add: fetchPrice_def or_null_def truthy_def quote_def)
  have b: "fsub 3941 4000 = Finite (- 59)"
    by (simp add: fsub_def fl_eval)
  have c: "fdiv (Finite (- 59)) 4000 = Finite (- (1062849512059437 / 72057594037927936))"
    by (simp add: fl_eval)
  have d: "fmul (Finite (- (1062849512059437 / 72057594037927936))) 100 =
      Finite (- (6642809450371481 / 4503599627370496))"
    by (simp add: fl_eval)
  have e: "toFixed 2 (- (6642809450371481 / 4503599627370496)) = Fixed ''-1.47''"
    by (simp add: toFixed_def point_def decimal_small decimal_large digit_def)
  have f: "priceChangePercent ?st = Fixed ''-1.47''"
    using a b c d e by (simp add: priceChangePercent_def priceChange_def truthy_def quote_def)
  have g: "two_decimals ((3941 - 4000) / 4000 * 100) = ''-1.48''"
    by (simp add: two_decimals_def decimal_small decimal_large digit_def)
  show ?thesis using f g by simp
qed

text \<open>
  Claim C4. Whatever the current value, an absent previous price gives a change of 0, the
  percentage text \<open>0.00\<close> and a positive sign, and no indicator is rendered.
\<close>

theorem delta_absent:
  "previousPrice st = None \<Longrightarrow>
   priceChange st = Finite 0 \<and> priceChangePercent st = Fixed ''0.00'' \<and> isPositive st \<and>
   render_indicator st = None"
  by (simp add: priceChange_def priceChangePercent_def isPositive_def render_indicator_def
      truthy_def split: option.split)

theorem delta_absent_witness:
  "previousPrice (fetchPrice None (Inr (quote 51000)) initial_ticker) = None \<and>
   priceChange (fetchPrice None (Inr (quote 51000)) initial_ticker) = Finite 0 \<and>
   priceChangePercent (fetchPrice None (Inr (quote 51000)) initial_ticker) = Fixed ''0.00'' \<and>
   isPositive (fetchPrice None (Inr (quote 51000)) initial_ticker) \<and>
   render_indicator (fetchPrice None (Inr (quote 51000)) initial_ticker) = None"
proof -
  have h: "previousPrice (fetchPrice None (Inr (quote 51000)) initial_ticker) = None"
    by (simp add: fetchPrice_def or_null_def truthy_def)
  show ?thesis using h delta_absent [OF h] by simp
qed

section \<open>The leaderboard's badges and order\<close>

text \<open>
  Claim C5. The badge depends on the index alone: indices 0, 1 and 2 give three trophies
  that differ from one another, and an index of 3 or more gives the text \<open>#N\<close> with
  \<open>N = index + 1\<close>; index 3 gives \<open>#4\<close>.
\<close>

theorem rank_badge:
  "getRankIcon 0 = Trophy ''w-5 h-5 text-yellow-400'' \<and>
   getRankIcon 1 = Trophy ''w-5 h-5 text-slate-400'' \<and>
   getRankIcon 2 = Trophy ''w-5 h-5 text-amber-600'' \<and>
   distinct [getRankIcon 0, getRankIcon 1, getRankIcon 2] \<and>
   (3 \<le> index \<longrightarrow>
      getRankIcon index = Span ''text-slate-400 font-semibold'' (''#'' @ decimal (index + 1)))"
  by (simp add: getRankIcon_def)

theorem rank_badge_witness:
  "getRankIcon 3 = Span ''text-slate-400 font-semibold'' ''#4''"
  using rank_badge [of 3] by (simp add: decimal_small digit_def)

text \<open>
  Claim C6. After a successful fetch the rendered rows follow the order of the server's
  \<open>top_traders\<close>: keys, names and returns are those of the server's list in its order,
  and the badges are those of the positions; nothing is sorted again.
\<close>

theorem server_order:
  "traders (fetchLeaderboard (Inr response) st) = top_traders response \<and>
   map row_key (render_rows (fetchLeaderboard (Inr response) st)) =
     map trader_id (top_traders response) \<and>
   map row_name (render_rows (fetchLeaderboard (Inr response) st)) =
     map name (top_traders response) \<and>
   map row_roi (render_rows (fetchLeaderboard (Inr response) st)) =
     map (\<lambda>t. toFixed 2 (roi t)) (top_traders response) \<and>
   map row_badge (render_rows (fetchLeaderboard (Inr response) st)) =
     map getRankIcon [0..<length (top_traders response)]"
  by (simp add: fetchLeaderboard_def render_rows_def render_row_def case_prod_beta comp_def
      map_snd_enumerate_fun map_fst_enumerate_fun
      map_snd_enumerate_fun [of "\<lambda>t. toFixed 2 (roi t)"])

theorem server_order_witness:
  "map row_name (render_rows (fetchLeaderboard
      (Inr \<lparr>top_traders = [trader ''A'' 10, trader ''B'' 20, trader ''C'' 5], count = 3\<rparr>)
      initial_leaderboard)) = [''A'', ''B'', ''C'']"
  using server_order [of "\<lparr>top_traders = [trader ''A'' 10, trader ''B'' 20, trader ''C'' 5], count = 3\<rparr>"
      initial_leaderboard]
  by (simp add: trader_def)

section \<open>A failed fetch\<close>

text \<open>
  Claim C2, as amended. A failed fetch leaves the current and the previous value as they
  were (for the leaderboard, the list of traders), sets the error to the poller's message
  and sets the loading flag to false.
\<close>

theorem failure_frame:
  "priceData (fetchPrice captured (Inl err) st) = priceData st \<and>
   previousPrice (fetchPrice captured (Inl err) st) = previousPrice st \<and>
   error (fetchPrice captured (Inl err) st) = Some ''Failed to fetch price data'' \<and>
   loading (fetchPrice captured (Inl err) st) = False \<and>
   traders (fetchLeaderboard (Inl err') lst) = traders lst \<and>
   lb_error (fetchLeaderboard (Inl err') lst) = Some ''Failed to fetch leaderboard'' \<and>
   lb_loading (fetchLeaderboard (Inl err') lst) = False"
  by (simp add: fetchPrice_def fetchLeaderboard_def)

text \<open>
  The claim as first stated has the failure set the error field only. The first fetch of
  a ticker that fails also turns the loading flag off.
\<close>

theorem failure_frame_counterexample:
  "loading (fetchPrice None (Inl NetworkError) initial_ticker) \<noteq> loading initial_ticker"
  by (simp add: fetchPrice_def initial_ticker_def)

text \<open>
  Claim C10. The message published on a failure is one fixed text for each poller,
  whatever was thrown: two failures with different causes leave the same state.
\<close>

theorem failure_message:
  "error (fetchPrice captured (Inl err) st) = Some ''Failed to fetch price data'' \<and>
   lb_error (fetchLeaderboard (Inl err') lst) = Some ''Failed to fetch leaderboard'' \<and>
   fetchPrice captured (Inl err) st = fetchPrice captured (Inl other) st \<and>
   fetchLeaderboard (Inl err') lst = fetchLeaderboard (Inl other') lst"
  by (simp add: fetchPrice_def fetchLeaderboard_def)

section \<open>Successful fetches of the ticker\<close>

text \<open>
  Claim C1, as amended. A successful fetch sets the previous price to the price its
  closure reads when that price is not zero and to absent otherwise, the current value
  to the new payload and the error to none. When fetches do not overlap, the previous
  price after a successful fetch is so computed from the value current before it; hence
  after two successful fetches in a row it is the price of the earlier payload whenever
  that price is not zero.
\<close>

theorem successive_fetches:
  "previousPrice (fetchPrice captured (Inr d) st) = or_null (map_option price captured) \<and>
   priceData (fetchPrice captured (Inr d) st) = Some d \<and>
   error (fetchPrice captured (Inr d) st) = None \<and>
   previousPrice (state (polls mount (rs @ [Inr d]))) =
     or_null (map_option price (priceData (state (polls mount rs)))) \<and>
   priceData (state (polls mount (rs @ [Inr d]))) = Some d \<and>
   error (state (polls mount (rs @ [Inr d]))) = None \<and>
   (price d' \<noteq> 0 \<longrightarrow>
      previousPrice (state (polls mount (rs @ [Inr d', Inr d]))) = Some (price d') \<and>
      priceData (state (polls mount (rs @ [Inr d']))) = Some d')"
proof -
  have a: "state (polls mount (rs @ [Inr d])) =
      fetchPrice (priceData (state (polls mount rs))) (Inr d) (state (polls mount rs))"
    by (rule polls_state_snoc)
  have b: "priceData (state (polls mount (rs @ [Inr d']))) = Some d'"
    by (simp add: polls_state_snoc fetchPrice_def)
  have "state (polls mount ((rs @ [Inr d']) @ [Inr d])) =
      fetchPrice (priceData (state (polls mount (rs @ [Inr d'])))) (Inr d)
        (state (polls mount (rs @ [Inr d'])))"
    by (rule polls_state_snoc)
  then have c: "previousPrice (state (polls mount (rs @ [Inr d', Inr d]))) =
      or_null (Some (price d'))"
    using b by (simp add: fetchPrice_def)
  show ?thesis
    using a b c by (simp add: fetchPrice_def or_null_def truthy_def)
qed

theorem successive_fetches_witness:
  "previousPrice (state (polls mount [Inr (quote 50000), Inr (quote 51000)])) = Some 50000 \<and>
   priceData (state (polls mount [Inr (quote 50000)])) = Some (quote 50000)"
  using successive_fetches [where rs = "[]" and d = "quote 51000" and d' = "quote 50000"]
  by (simp add: quote_def)

text \<open>
  The claim as first stated makes the previous value after a fetch the value current
  before it. A current price of 0 is followed by an absent previous price.
\<close>

theorem successive_fetches_counterexample:
  "previousPrice (state (polls mount [Inr (quote 0), Inr (quote 51000)])) \<noteq>
   map_option price (priceData (state (polls mount [Inr (quote 0)])))"
  by (simp add: polls_def poll_def mount_def useEffect_def cleanup_def rerender_def
      fetchPrice_def or_null_def truthy_def quote_def initial_ticker_def Let_def)



section \<open>Deactivation\<close>

text \<open>
  Claim C7. After a poller is deactivated, that is, after its component is unmounted, no
  further state mutation occurs. The cleanup has cleared the interval, so a tick that was
  scheduled changes nothing at all, now or after any later events; and the completion of
  a request that was in flight, like every later event, leaves the state as it was when
  the component was unmounted. This holds for the ticker after any events since it was
  mounted, and for the leaderboard.
\<close>

theorem deactivation:
  "step (Tick i) (run (step Unmount (run mount evs)) evs') =
     run (step Unmount (run mount evs)) evs' \<and>
   state (step (Resolve k r) (run (step Unmount (run mount evs)) evs')) =
     state (run mount evs) \<and>
   state (run (step Unmount (run mount evs)) evs') = state (run mount evs) \<and>
   intervals (run (step Unmount (run mount evs)) evs') = [] \<and>
   lb_step (LbTick i') (lb_run (lb_step LbUnmount b) levs) =
     lb_run (lb_step LbUnmount b) levs \<and>
   lb_state (lb_step (LbResolve r') (lb_run (lb_step LbUnmount b) levs)) = lb_state b \<and>
   lb_state (lb_run (lb_step LbUnmount b) levs) = lb_state b"
proof -
  define c where "c = run mount evs"
  define u where "u = step Unmount c"
  have "one_interval c"
    unfolding c_def by (intro one_interval_run one_interval_mount)
  then have u: "intervals u = []" "timer u = None" "\<not> mounted u" "state u = state c"
    unfolding u_def using unmount_clears by blast+
  have q: "intervals (run u es) = []" "timer (run u es) = None" "\<not> mounted (run u es)"
    "state (run u es) = state c" for es
    using run_quiet [OF u(1,2,3), of es] u(4) by simp_all
  have a: "step (Tick i) (run u evs') = run u evs'"
    using q(1) [of evs'] by (rule step_Tick_none)
  have "state (step (Resolve k r) (run u evs')) = state (run u evs')"
    using step_unmounted [OF q(3) [of evs'], of "Resolve k r"] by simp
  then have b: "state (step (Resolve k r) (run u evs')) = state c"
    using q(4) [of evs'] by simp
  define lu where "lu = lb_step LbUnmount b"
  have lu: "lb_timer lu = None" "\<not> lb_mounted lu" "lb_state lu = lb_state b"
    by (simp_all add: lu_def lb_cleanup_def)
  have lq: "lb_timer (lb_run lu levs) = None" "\<not> lb_mounted (lb_run lu levs)"
    "lb_state (lb_run lu levs) = lb_state b"
    using lb_run_quiet [OF lu(1,2), of levs] lu(3) by simp_all
  have la: "lb_step (LbTick i') (lb_run lu levs) = lb_run lu levs"
    using lq(1) by simp
  have "lb_state (lb_step (LbResolve r') (lb_run lu levs)) = lb_state (lb_run lu levs)"
    using lb_step_unmounted [OF lq(2), of "LbResolve r'"] by simp
  then have lb: "lb_state (lb_step (LbResolve r') (lb_run lu levs)) = lb_state b"
    using lq(3) by simp
  show ?thesis
    using a b q(4) [of evs'] q(1) [of evs'] la lb lq(3)
    unfolding u_def c_def lu_def by simp
qed

text \<open>
  An instance: the interval fires while the first request is in flight, the first request
  succeeds, and the component is unmounted with two requests still in flight. A tick of
  the cleared interval then starts nothing, and the completion of a request changes no
  state.
\<close>

theorem deactivation_witness:
  "pending (run mount [Tick 0, Resolve 0 (Inr (quote 100))]) = [None, Some (quote 100)] \<and>
   step (Tick 1) (step Unmount (run mount [Tick 0, Resolve 0 (Inr (quote 100))])) =
     step Unmount (run mount [Tick 0, Resolve 0 (Inr (quote 100))]) \<and>
   state (step (Resolve 0 (Inr (quote 200)))
      (step Unmount (run mount [Tick 0, Resolve 0 (Inr (quote 100))]))) =
     state (run mount [Tick 0, Resolve 0 (Inr (quote 100))]) \<and>
   lb_state (lb_step (LbResolve (Inr \<lparr>top_traders = [trader ''A'' 10], count = 1\<rparr>))
      (lb_step LbUnmount lb_mount)) = initial_leaderboard"
proof -
  have p: "pending (run mount [Tick 0, Resolve 0 (Inr (quote 100))]) =
      [None, Some (quote 100)]"
    by (simp add: trace_defs)
  have l: "lb_state lb_mount = initial_leaderboard"
    by (simp add: lb_mount_def)
  show ?thesis
    using deactivation [where evs = "[Tick 0, Resolve 0 (Inr (quote 100))]" and evs' = "[]"
        and i = 1 and k = 0 and r = "Inr (quote 200)" and b = lb_mount and levs = "[]"
        and r' = "Inr \<lparr>top_traders = [trader ''A'' 10], count = 1\<rparr>"]
      p l
    by (simp add: run_Nil lb_run_Nil)
qed

section \<open>Phases of a poller\<close>

text \<open>
  Claim C8, as amended. Each poller starts in the loading phase with its first request in
  flight. The completion of a request takes it to success or to failure, from whichever
  phase it is in. A tick changes no phase: once the first request has completed the
  poller is never in the loading phase again. Unmounting takes it to the cancelled
  phase, which no event leaves and in which the state no longer changes.
\<close>

theorem phases:
  "phase mount = Loading \<and> pending mount = [None] \<and>
   (mounted c \<and> k < length (pending c) \<longrightarrow>
      phase (step (Resolve k (Inr d)) c) = Success \<and>
      phase (step (Resolve k (Inl err)) c) = Failure) \<and>
   phase (step (Tick i) c1) = phase c1 \<and>
   (phase c2 \<noteq> Loading \<longrightarrow> phase (run c2 evs2) \<noteq> Loading) \<and>
   phase (step Unmount c3) = Cancelled \<and>
   (phase c4 = Cancelled \<longrightarrow>
      phase (run c4 evs4) = Cancelled \<and> state (run c4 evs4) = state c4) \<and>
   lb_phase lb_mount = Loading \<and> lb_pending lb_mount = 1 \<and>
   (lb_mounted b \<and> 0 < lb_pending b \<longrightarrow>
      lb_phase (lb_step (LbResolve (Inr response)) b) = Success \<and>
      lb_phase (lb_step (LbResolve (Inl err')) b) = Failure) \<and>
   lb_phase (lb_step (LbTick i') b1) = lb_phase b1 \<and>
   (lb_phase b2 \<noteq> Loading \<longrightarrow> lb_phase (lb_run b2 evs5) \<noteq> Loading) \<and>
   lb_phase (lb_step LbUnmount b3) = Cancelled \<and>
   (lb_phase b4 = Cancelled \<longrightarrow>
      lb_phase (lb_run b4 evs6) = Cancelled \<and> lb_state (lb_run b4 evs6) = lb_state b4)"
proof -
  have a: "phase mount = Loading" "pending mount = [None]"
    by (simp_all add: phase_def mount_def useEffect_def initial_ticker_def)
  have b: "phase (step (Resolve k (Inr d)) c) = Success \<and>
      phase (step (Resolve k (Inl err)) c) = Failure"
    if "mounted c" and "k < length (pending c)"
    using phase_Resolve [OF that] by simp
  have c: "phase (step (Tick i) c1) = phase c1"
    by (rule phase_Tick)
  have d: "phase c2 \<noteq> Loading \<longrightarrow> phase (run c2 evs2) \<noteq> Loading"
    using phase_run_not_Loading [of c2 evs2] by blast
  have e: "phase (step Unmount c3) = Cancelled"
    by (simp add: phase_def)
  have f: "phase (run c4 evs4) = Cancelled \<and> state (run c4 evs4) = state c4"
    if "phase c4 = Cancelled"
    using that run_unmounted [of c4 evs4] by (simp add: phase_Cancelled)
  have la: "lb_phase lb_mount = Loading" "lb_pending lb_mount = 1"
    by (simp_all add: lb_phase_def lb_mount_def initial_leaderboard_def)
  have lb: "lb_phase (lb_step (LbResolve (Inr response)) b) = Success \<and>
      lb_phase (lb_step (LbResolve (Inl err')) b) = Failure"
    if "lb_mounted b" and "0 < lb_pending b"
    using that by (simp add: lb_phase_def fetchLeaderboard_def Let_def)
  have lc: "lb_phase (lb_step (LbTick i') b1) = lb_phase b1"
    by (simp add: lb_phase_def)
  have ld: "lb_phase b2 \<noteq> Loading \<longrightarrow> lb_phase (lb_run b2 evs5) \<noteq> Loading"
    using lb_phase_run_not_Loading [of b2 evs5] by blast
  have le: "lb_phase (lb_step LbUnmount b3) = Cancelled"
    by (simp add: lb_phase_def)
  have lf: "lb_phase (lb_run b4 evs6) = Cancelled \<and> lb_state (lb_run b4 evs6) = lb_state b4"
    if "lb_phase b4 = Cancelled"
    using that lb_run_unmounted [of b4 evs6] by (simp add: lb_phase_Cancelled)
  show ?thesis
    using a b c d e f la lb lc ld le lf by blast
qed

theorem phases_witness:
  "phase (step (Resolve 0 (Inr (quote 100))) mount) = Success \<and>
   phase (step (Resolve 0 (Inl NetworkError)) mount) = Failure \<and>
   phase (run (step (Resolve 0 (Inr (quote 100))) mount) [Tick 1, Resolve 0 (Inl NetworkError)])
     \<noteq> Loading \<and>
   phase (run (step Unmount mount) [Tick 0, Resolve 0 (Inr (quote 100))]) = Cancelled \<and>
   state (run (step Unmount mount) [Tick 0, Resolve 0 (Inr (quote 100))]) = initial_ticker \<and>
   lb_phase (lb_step (LbResolve (Inr \<lparr>top_traders = [], count = 0\<rparr>)) lb_mount) = Success \<and>
   lb_phase (lb_step (LbResolve (Inl NetworkError)) lb_mount) = Failure \<and>
   lb_phase (lb_run (lb_step (LbResolve (Inl NetworkError)) lb_mount) [LbTick 0]) \<noteq> Loading \<and>
   lb_phase (lb_run (lb_step LbUnmount lb_mount)
     [LbResolve (Inr \<lparr>top_traders = [], count = 0\<rparr>)]) = Cancelled \<and>
   lb_state (lb_run (lb_step LbUnmount lb_mount)
     [LbResolve (Inr \<lparr>top_traders = [], count = 0\<rparr>)]) = initial_leaderboard"
proof -
  have m: "mounted mount" "pending mount = [None]"
    by (simp_all add: mount_def useEffect_def initial_ticker_def)
  have s: "phase (step (Resolve 0 (Inr (quote 100))) mount) \<noteq> Loading"
    by (simp add: trace_defs phase_def)
  have u: "phase (step Unmount mount) = Cancelled"
    "state (step Unmount mount) = initial_ticker"
    by (simp_all add: phase_def mount_def useEffect_def cleanup_def)
  have lm: "lb_mounted lb_mount" "lb_pending lb_mount = 1"
    by (simp_all add: lb_mount_def)
  have ls: "lb_phase (lb_step (LbResolve (Inl NetworkError)) lb_mount) \<noteq> Loading"
    by (simp add: lb_mount_def lb_phase_def fetchLeaderboard_def Let_def)
  have lu: "lb_phase (lb_step LbUnmount lb_mount) = Cancelled"
    "lb_state (lb_step LbUnmount lb_mount) = initial_leaderboard"
    by (simp_all add: lb_phase_def lb_mount_def lb_cleanup_def)
  show ?thesis
    using phases [where c = mount and k = 0 and d = "quote 100" and err = NetworkError
        and ?c2.0 = "step (Resolve 0 (Inr (quote 100))) mount"
        and ?evs2.0 = "[Tick 1, Resolve 0 (Inl NetworkError)]"
        and ?c4.0 = "step Unmount mount"
        and ?evs4.0 = "[Tick 0, Resolve 0 (Inr (quote 100))]"
        and b = lb_mount and response = "\<lparr>top_traders = [], count = 0\<rparr>"
        and err' = NetworkError
        and ?b2.0 = "lb_step (LbResolve (Inl NetworkError)) lb_mount"
        and ?evs5.0 = "[LbTick 0]"
        and ?b4.0 = "lb_step LbUnmount lb_mount"
        and ?evs6.0 = "[LbResolve (Inr \<lparr>top_traders = [], count = 0\<rparr>)]"]
      m s u lm ls lu
    by (simp del: step.simps lb_step.simps)
qed

text \<open>
  The claim as first stated has every later tick bring the poller back to the loading
  phase. After the first fetch has succeeded, a tick of the current interval puts a
  second request in flight and the phase stays success.
\<close>

theorem phases_counterexample:
  "timer (run mount [Resolve 0 (Inr (quote 100))]) = Some (1, Some (quote 100)) \<and>
   phase (run mount [Resolve 0 (Inr (quote 100))]) = Success \<and>
   pending (run mount [Resolve 0 (Inr (quote 100)), Tick 1]) =
     [Some (quote 100), Some (quote 100)] \<and>
   loading (state (run mount [Resolve 0 (Inr (quote 100)), Tick 1])) = False \<and>
   phase (run mount [Resolve 0 (Inr (quote 100)), Tick 1]) = Success"
  by (simp add: trace_defs phase_def)

end
